theory Spec2Isabelle
  imports Main "HOL-Library.AList"
begin

section \<open>The ordering server of the Automerge demo\<close>

text \<open>
  Source: \<^verbatim>\<open>src/demos/automerge-demo/src/index.ts\<close>.

  Versions are JavaScript numbers that start at 0 and only ever grow by \<^verbatim>\<open>version++\<close>;
  they are modelled as \<^typ>\<open>int\<close>. A \<^verbatim>\<open>Uint8Array\<close> is never inspected by the demo
  itself (only the document engine reads it), so its type is the parameter \<open>'b\<close>.
\<close>

subsection \<open>Data\<close>

text \<open>\<^verbatim>\<open>type Op = { version; opId; actorId; changes; touchedPaths }\<close> (lines 32-38).\<close>

record 'b Op =
  version :: int
  opId :: string
  actorId :: string
  changes :: "'b list"
  touchedPaths :: "string list"

text \<open>The argument object of \<^verbatim>\<open>Server.commit\<close> (line 50).\<close>

record 'b Request =
  expectedVersion :: int
  opId :: string
  actorId :: string
  changes :: "'b list"
  touchedPaths :: "string list"

text \<open>
  What the program can throw. \<^verbatim>\<open>STALE_VERSION\<close> is the object thrown at line 59, with
  its \<^verbatim>\<open>currentVersion\<close>. \<^verbatim>\<open>TypeError\<close> is what the JavaScript runtime raises when a
  property of \<^verbatim>\<open>undefined\<close> is read (or one of a primitive is written in strict mode).
  \<^verbatim>\<open>EngineError\<close> stands for any exception raised inside a call of the document engine.
\<close>

datatype error = STALE_VERSION int | TypeError | EngineError

text \<open>\<^verbatim>\<open>class Server\<close> (lines 40-43): the fields and their initial values.\<close>

record 'b Server =
  version :: int
  ops :: "'b Op list"
  committedOpIds :: "string set"

definition newServer :: "'b Server" where
  "newServer = \<lparr>Server.version = 0, ops = [], committedOpIds = {}\<rparr>"

subsection \<open>Operations\<close>

text \<open>
  \<^verbatim>\<open>fetchSince\<close> (lines 45-48). The server is passed and returned, so that what the call
  does to it is part of the model. The \<^verbatim>\<open>await delay\<close> only yields to other tasks; the
  body after it runs without interruption.
\<close>

definition fetchSince :: "'b Server \<Rightarrow> int \<Rightarrow> 'b Op list \<times> 'b Server" where
  "fetchSince s v = (filter (\<lambda>op. Op.version op > v) (ops s), s)"

text \<open>
  \<^verbatim>\<open>commit\<close> (lines 50-74). \<^verbatim>\<open>op!.version\<close> at line 55 reads a property of whatever
  \<^verbatim>\<open>find\<close> returned: when that is \<^verbatim>\<open>undefined\<close> the read raises a \<^verbatim>\<open>TypeError\<close>.
\<close>

definition commit :: "'b Server \<Rightarrow> 'b Request \<Rightarrow> (error + int) \<times> 'b Server" where
  "commit s req =
     (if Request.opId req \<in> committedOpIds s then
        (case find (\<lambda>x. Op.opId x = Request.opId req) (ops s) of
           None \<Rightarrow> (Inl TypeError, s)
         | Some op \<Rightarrow> (Inr (Op.version op), s))
      else if expectedVersion req \<noteq> Server.version s then
        (Inl (STALE_VERSION (Server.version s)), s)
      else
        (let s1 = s\<lparr>Server.version := Server.version s + 1\<rparr>;
             op = \<lparr>Op.version = Server.version s1,
                   Op.opId = Request.opId req,
                   Op.actorId = Request.actorId req,
                   Op.changes = Request.changes req,
                   Op.touchedPaths = Request.touchedPaths req\<rparr>;
             s2 = s1\<lparr>ops := ops s1 @ [op]\<rparr>;
             s3 = s2\<lparr>committedOpIds := insert (Request.opId req) (committedOpIds s2)\<rparr>
         in (Inr (Server.version s3), s3)))"

subsection \<open>Call sequences and reachable states\<close>

datatype 'b call = FetchSince int | Commit "'b Request"

fun step :: "'b Server \<Rightarrow> 'b call \<Rightarrow> 'b Server" where
  "step s (FetchSince v) = snd (fetchSince s v)"
| "step s (Commit req) = snd (commit s req)"

fun run :: "'b Server \<Rightarrow> 'b call list \<Rightarrow> 'b Server" where
  "run s [] = s"
| "run s (c # cs) = run (step s c) cs"

text \<open>The states the server can be in: those a sequence of calls leads to from the start.\<close>

inductive reachable :: "'b Server \<Rightarrow> bool" where
  reachable_new: "reachable newServer"
| reachable_step: "reachable s \<Longrightarrow> reachable (step s c)"

text \<open>A commit appends when its key is new and its expected version is the current one.\<close>

definition appends :: "'b Server \<Rightarrow> 'b Request \<Rightarrow> bool" where
  "appends s req \<longleftrightarrow>
     Request.opId req \<notin> committedOpIds s \<and> expectedVersion req = Server.version s"

text \<open>The versions returned by the appending commits of a call sequence, in call order.\<close>

fun appendedVersions :: "'b Server \<Rightarrow> 'b call list \<Rightarrow> int list" where
  "appendedVersions s [] = []"
| "appendedVersions s (FetchSince v # cs) = appendedVersions (step s (FetchSince v)) cs"
| "appendedVersions s (Commit req # cs) =
     (case fst (commit s req) of
        Inr v \<Rightarrow> (if appends s req then [v] else [])
      | Inl e \<Rightarrow> [])
     @ appendedVersions (step s (Commit req)) cs"

text \<open>The invariant of the log (spec, section 3) together with the key table.\<close>

definition server_inv :: "'b Server \<Rightarrow> bool" where
  "server_inv s \<longleftrightarrow>
     Server.version s = int (length (ops s)) \<and>
     map Op.version (ops s) = map int [1..<Suc (length (ops s))] \<and>
     committedOpIds s = Op.opId ` set (ops s)"

section \<open>The sync client of the Automerge demo\<close>

subsection \<open>JavaScript values and the two path helpers\<close>

text \<open>
  \<^verbatim>\<open>getByPath\<close> and \<^verbatim>\<open>setByPath\<close> (lines 247-256) are typed \<^verbatim>\<open>any\<close>: they walk
  whatever value they are given. The values of a document of type \<^verbatim>\<open>DocType\<close> are
  strings inside nested objects; \<^verbatim>\<open>undefined\<close> is what a missing property reads as, and
  a number is what the \<^verbatim>\<open>length\<close> of a string reads as. An object is the list of its
  own properties in insertion order. An array (the field \<^verbatim>\<open>order\<close>) is seen by the two
  helpers as an object keyed by its indices; its \<^verbatim>\<open>length\<close> is not represented. Only
  own properties are represented: a path segment that names an inherited member
  (\<^verbatim>\<open>toString\<close>, \<^verbatim>\<open>constructor\<close>, ...) or the \<^verbatim>\<open>length\<close> of an array is outside this
  model, and nothing below is stated about such a path.
\<close>

datatype jsval =
    JUndefined
  | JNumber int
  | JString string
  | JObject "(string \<times> jsval) list"

text \<open>JavaScript truthiness, as \<^verbatim>\<open>&&\<close> and \<^verbatim>\<open>if\<close> test it.\<close>

fun truthy :: "jsval \<Rightarrow> bool" where
  "truthy JUndefined = False"
| "truthy (JNumber n) = (n \<noteq> 0)"
| "truthy (JString s) = (s \<noteq> [])"
| "truthy (JObject kvs) = True"

text \<open>\<^verbatim>\<open>path.split('.')\<close>: the segments between the dots; never an empty array.\<close>

fun split_dot :: "string \<Rightarrow> string list" where
  "split_dot [] = [[]]"
| "split_dot (c # cs) =
     (if c = CHR ''.'' then [] # split_dot cs
      else (case split_dot cs of
              [] \<Rightarrow> [[c]]
            | k # ks \<Rightarrow> (c # k) # ks))"

text \<open>\<^verbatim>\<open>p.path.join('.')\<close> (line 119); the numbers in a patch path are taken as printed.\<close>

fun join_dot :: "string list \<Rightarrow> string" where
  "join_dot [] = []"
| "join_dot [k] = k"
| "join_dot (k # ks) = k @ ''.'' @ join_dot ks"

text \<open>
  A key is an index when it is the decimal numeral of a natural number, without a sign
  and without a leading zero.
\<close>

definition is_digit :: "char \<Rightarrow> bool" where
  "is_digit c \<longleftrightarrow> 48 \<le> (of_char c :: nat) \<and> (of_char c :: nat) \<le> 57"

definition arrayIndex :: "string \<Rightarrow> nat option" where
  "arrayIndex k =
     (if k = [] \<or> \<not> list_all is_digit k \<or> (length k > 1 \<and> hd k = CHR ''0'') then None
      else Some (foldl (\<lambda>n c. 10 * n + (of_char c - 48)) 0 k))"

text \<open>
  \<^verbatim>\<open>o[k]\<close> for an \<open>o\<close> that is not \<^verbatim>\<open>undefined\<close>: the own property \<open>k\<close> of \<open>o\<close>, or
  \<^verbatim>\<open>undefined\<close> when there is none.
\<close>

fun own :: "jsval \<Rightarrow> string \<Rightarrow> jsval" where
  "own JUndefined k = JUndefined"
| "own (JNumber n) k = JUndefined"
| "own (JString s) k =
     (if k = ''length'' then JNumber (int (length s))
      else (case arrayIndex k of
              None \<Rightarrow> JUndefined
            | Some i \<Rightarrow> if i < length s then JString [s ! i] else JUndefined))"
| "own (JObject kvs) k = (case map_of kvs k of None \<Rightarrow> JUndefined | Some v \<Rightarrow> v)"

text \<open>
  \<^verbatim>\<open>getByPath\<close> (lines 247-249): \<^verbatim>\<open>path.split('.').reduce((o, k) => o && o[k], obj)\<close>.
  The guard \<^verbatim>\<open>o &&\<close> keeps a falsy \<open>o\<close> as the result of the remaining steps, so no
  property of \<^verbatim>\<open>undefined\<close> is ever read.
\<close>

definition getByPath :: "jsval \<Rightarrow> string \<Rightarrow> jsval" where
  "getByPath obj path = foldl (\<lambda>o' k. if truthy o' then own o' k else o') obj (split_dot path)"

text \<open>
  \<^verbatim>\<open>setByPath\<close> (lines 251-256) finds \<^verbatim>\<open>target\<close> with the unguarded
  \<^verbatim>\<open>parts.reduce((o, k) => o[k], obj)\<close>, which raises a \<^verbatim>\<open>TypeError\<close> when it reads a
  property of \<^verbatim>\<open>undefined\<close>.
\<close>

fun reduce_props :: "jsval \<Rightarrow> string list \<Rightarrow> error + jsval" where
  "reduce_props obj [] = Inr obj"
| "reduce_props obj (k # ks) =
     (case obj of
        JUndefined \<Rightarrow> Inl TypeError
      | _ \<Rightarrow> reduce_props (own obj k) ks)"

text \<open>
  \<^verbatim>\<open>target[last] = val\<close> mutates, in place, the object that \<open>parts\<close> lead to inside
  \<open>obj\<close>. \<open>store obj parts l val\<close> is \<open>obj\<close> after that assignment: the objects along
  \<open>parts\<close> rebuilt around the changed one. An existing property keeps its place, a new
  one goes last.
\<close>

fun store :: "jsval \<Rightarrow> string list \<Rightarrow> string \<Rightarrow> jsval \<Rightarrow> jsval" where
  "store (JObject kvs) [] l val = JObject (AList.update l val kvs)"
| "store (JObject kvs) (k # ks) l val =
     JObject (AList.map_entry k (\<lambda>child. store child ks l val) kvs)"
| "store obj ks l val = obj"

text \<open>
  The assignment happens only \<^verbatim>\<open>if (target)\<close>. The file is an ES module, hence strict
  code: assigning a property of a string or of a number raises a \<^verbatim>\<open>TypeError\<close>.
  \<^verbatim>\<open>pop\<close> takes the last segment, which exists since \<^verbatim>\<open>split\<close> returns at least one.
  What an object does with an assigned value is the object's business: a plain object
  takes every value, the draft that \<^verbatim>\<open>A.change\<close> hands to its callback refuses some
  (Automerge refuses \<^verbatim>\<open>undefined\<close>) by raising. \<open>admits\<close> says which values the
  object at hand takes.
\<close>

definition setByPath :: "(jsval \<Rightarrow> bool) \<Rightarrow> jsval \<Rightarrow> string \<Rightarrow> jsval \<Rightarrow> error + jsval" where
  "setByPath admits obj path val =
     (let parts = split_dot path;
          l = last parts;
          parts' = butlast parts
      in case reduce_props obj parts' of
           Inl err \<Rightarrow> Inl err
         | Inr target \<Rightarrow>
             if truthy target then
               (case target of
                  JObject kvs \<Rightarrow>
                    if admits val then Inr (store obj parts' l val) else Inl EngineError
                | _ \<Rightarrow> Inl TypeError)
             else Inr obj)"

subsection \<open>The document engine\<close>

text \<open>
  The Automerge library is not part of this repository; the client is modelled over any
  engine. \<open>'d\<close> is \<^verbatim>\<open>A.Doc<DocType>\<close>, \<open>'b\<close> is \<^verbatim>\<open>Uint8Array\<close>, \<open>'h\<close> is \<^verbatim>\<open>A.Heads\<close>,
  which the demo only hands back to the engine. \<open>A_view\<close> is the document read as a
  plain value (\<^verbatim>\<open>doc.nodes\<close>, ...). A callback \<^verbatim>\<open>(d: DocType) => void\<close> that mutates
  the draft it is given is a function from the value of the document to the mutated
  value, or to the exception it raises; \<open>A_admits\<close> says which values a draft takes in
  an assignment. \<open>A_diff\<close> gives the paths of the patches. The calls that reject some
  of their arguments return a sum.
\<close>

record ('d, 'b, 'h) engine =
  A_init :: "string \<Rightarrow> 'd"
  A_view :: "'d \<Rightarrow> jsval"
  A_admits :: "jsval \<Rightarrow> bool"
  A_clone :: "'d \<Rightarrow> 'd"
  A_applyChanges :: "'d \<Rightarrow> 'b list \<Rightarrow> error + 'd"
  A_change :: "'d \<Rightarrow> string \<Rightarrow> (jsval \<Rightarrow> error + jsval) \<Rightarrow> error + 'd"
  A_getChanges :: "'d \<Rightarrow> 'd \<Rightarrow> error + 'b list"
  A_getHeads :: "'d \<Rightarrow> 'h"
  A_diff :: "'d \<Rightarrow> 'h \<Rightarrow> 'h \<Rightarrow> string list list"
  A_save :: "'d \<Rightarrow> 'b"
  A_load :: "'b \<Rightarrow> error + 'd"

text \<open>
  \<^verbatim>\<open>A.change(doc, message, cb)\<close> runs \<open>cb\<close> once on a draft of \<open>doc\<close>; an exception
  raised by \<open>cb\<close> leaves \<^verbatim>\<open>A.change\<close> as that exception.
\<close>

definition callChange ::
  "('d, 'b, 'h) engine \<Rightarrow> 'd \<Rightarrow> string \<Rightarrow> (jsval \<Rightarrow> error + jsval) \<Rightarrow> error + 'd" where
  "callChange e doc message cb =
     (case cb (A_view e doc) of
        Inl err \<Rightarrow> Inl err
      | Inr v \<Rightarrow> A_change e doc message cb)"

subsection \<open>The client\<close>

text \<open>
  \<^verbatim>\<open>class Client\<close> (lines 86-106). \<^verbatim>\<open>touchedPaths\<close> is a \<^verbatim>\<open>Set<string>\<close>, which
  iterates in insertion order: a list without repetitions. The field \<^verbatim>\<open>server\<close> is a
  reference to the shared server, whose state is passed to \<^verbatim>\<open>syncNow\<close> and returned.
\<close>

record ('d, 'b) Client =
  actorId :: string
  localDoc :: 'd
  shadowDoc :: 'd
  serverVersion :: int
  touchedPaths :: "string list"
  isOnline :: bool
  strictMode :: bool
  undoStack :: "'b list"

definition newClient :: "('d, 'b, 'h) engine \<Rightarrow> string \<Rightarrow> ('d, 'b) Client" where
  "newClient e ident =
     \<lparr>Client.actorId = ident, localDoc = A_init e ident, shadowDoc = A_init e ident,
      serverVersion = 0, Client.touchedPaths = [], isOnline = True, strictMode = False,
      undoStack = []\<rparr>"

text \<open>\<^verbatim>\<open>Set.prototype.add\<close> and \<^verbatim>\<open>Set.prototype.delete\<close>.\<close>

definition set_add :: "string list \<Rightarrow> string \<Rightarrow> string list" where
  "set_add xs x = (if x \<in> set xs then xs else xs @ [x])"

definition set_delete :: "string list \<Rightarrow> string \<Rightarrow> string list" where
  "set_delete xs x = removeAll x xs"

text \<open>
  \<^verbatim>\<open>change\<close> (lines 109-122). The result pairs what the call returns or raises with the
  client afterwards.
\<close>

definition change ::
  "('d, 'b, 'h) engine \<Rightarrow> ('d, 'b) Client \<Rightarrow> string \<Rightarrow> (jsval \<Rightarrow> error + jsval) \<Rightarrow>
     (error + unit) \<times> ('d, 'b) Client" where
  "change e c message cb =
     (let c1 = c\<lparr>undoStack := undoStack c @ [A_save e (localDoc c)]\<rparr>;
          headsBefore = A_getHeads e (localDoc c1)
      in case callChange e (localDoc c1) message cb of
           Inl err \<Rightarrow> (Inl err, c1)
         | Inr doc \<Rightarrow>
             (let c2 = c1\<lparr>localDoc := doc\<rparr>;
                  headsAfter = A_getHeads e (localDoc c2);
                  patches = A_diff e (localDoc c2) headsBefore headsAfter;
                  c3 = c2\<lparr>Client.touchedPaths :=
                            foldl (\<lambda>tp p. set_add tp (join_dot p)) (Client.touchedPaths c2) patches\<rparr>
              in (Inr (), c3)))"

text \<open>\<^verbatim>\<open>undo\<close> (lines 124-132). \<^verbatim>\<open>pop\<close> takes the last element of the stack.\<close>

definition undo ::
  "('d, 'b, 'h) engine \<Rightarrow> ('d, 'b) Client \<Rightarrow> (error + unit) \<times> ('d, 'b) Client" where
  "undo e c =
     (if length (undoStack c) > 0 then
        (let snapshot = last (undoStack c);
             c1 = c\<lparr>undoStack := butlast (undoStack c)\<rparr>
         in case A_load e snapshot of
              Inl err \<Rightarrow> (Inl err, c1)
            | Inr doc \<Rightarrow> (Inr (), c1\<lparr>localDoc := doc\<rparr>))
      else (Inr (), c))"

subsection \<open>The sync cycle\<close>

text \<open>
  The callback of the reverting \<^verbatim>\<open>A.change\<close> (lines 171-177): for each conflicting path
  in turn, read the value in the shadow document, assign it in the draft \<open>d\<close>, delete the
  path from \<^verbatim>\<open>touchedPaths\<close>. An exception of \<^verbatim>\<open>setByPath\<close> ends the loop, with the
  paths before it already deleted and the path it was at still there. The result is the
  draft (or the exception) and \<^verbatim>\<open>touchedPaths\<close>.
\<close>

fun revertConflicts ::
  "(jsval \<Rightarrow> bool) \<Rightarrow> jsval \<Rightarrow> string list \<Rightarrow> jsval \<Rightarrow> string list \<Rightarrow>
     (error + jsval) \<times> string list" where
  "revertConflicts admits shadow [] d tp = (Inr d, tp)"
| "revertConflicts admits shadow (path # paths) d tp =
     (let val = getByPath shadow path
      in case setByPath admits d path val of
           Inl err \<Rightarrow> (Inl err, tp)
         | Inr d' \<Rightarrow> revertConflicts admits shadow paths d' (set_delete tp path))"

text \<open>
  \<^verbatim>\<open>serverChangedPaths\<close> (lines 149-150), the union of the touched paths of the pulled
  entries, and \<^verbatim>\<open>conflicts\<close> (line 167), the client's touched paths among them, in the
  order of \<^verbatim>\<open>touchedPaths\<close>.
\<close>

definition serverChangedPaths :: "'b Op list \<Rightarrow> string set" where
  "serverChangedPaths pulled = set (concat (map Op.touchedPaths pulled))"

definition conflicts :: "string list \<Rightarrow> 'b Op list \<Rightarrow> string list" where
  "conflicts tp pulled = filter (\<lambda>p. p \<in> serverChangedPaths pulled) tp"

text \<open>
  The body of \<^verbatim>\<open>if (ops.length > 0)\<close> (lines 145-180): apply the pulled changes to the
  shadow and to the local document, take the version of the last entry, and in strict
  mode revert the conflicting paths. The reverting callback runs on the draft of the
  local document; what it deletes from \<^verbatim>\<open>touchedPaths\<close> stays deleted when
  \<^verbatim>\<open>A.change\<close> raises.
\<close>

definition pull ::
  "('d, 'b, 'h) engine \<Rightarrow> ('d, 'b) Client \<Rightarrow> 'b Op list \<Rightarrow> (error + unit) \<times> ('d, 'b) Client" where
  "pull e c pulled =
     (if length pulled > 0 then
        (let changes' = concat (map Op.changes pulled);
             cleanShadow = A_clone e (shadowDoc c)
         in case A_applyChanges e cleanShadow changes' of
              Inl err \<Rightarrow> (Inl err, c)
            | Inr newShadow \<Rightarrow>
                (let c1 = c\<lparr>shadowDoc := newShadow\<rparr>;
                     cleanLocal = A_clone e (localDoc c1)
                 in case A_applyChanges e cleanLocal changes' of
                      Inl err \<Rightarrow> (Inl err, c1)
                    | Inr newLocal \<Rightarrow>
                        (let c2 = c1\<lparr>localDoc := newLocal\<rparr>;
                             c3 = c2\<lparr>serverVersion := Op.version (last pulled)\<rparr>
                         in if strictMode c3 then
                              (let cs = conflicts (Client.touchedPaths c3) pulled
                               in if length cs > 0 then
                                    (let shadow = A_view e (shadowDoc c3);
                                         cb = (\<lambda>d. fst (revertConflicts (A_admits e) shadow cs d
                                                          (Client.touchedPaths c3)));
                                         c4 = c3\<lparr>Client.touchedPaths :=
                                                   snd (revertConflicts (A_admits e) shadow cs
                                                          (A_view e (localDoc c3))
                                                          (Client.touchedPaths c3))\<rparr>
                                     in case callChange e (localDoc c4) ''Revert conflicts'' cb of
                                          Inl err \<Rightarrow> (Inl err, c4)
                                        | Inr doc \<Rightarrow> (Inr (), c4\<lparr>localDoc := doc\<rparr>))
                                  else (Inr (), c3))
                            else (Inr (), c3))))
      else (Inr (), c))"

text \<open>
  What a sync cycle leaves behind besides the two states: the calls it made to the server
  and the report it wrote with \<^verbatim>\<open>console.error\<close> (the informational \<^verbatim>\<open>log\<close> lines are
  not modelled).
\<close>

datatype 'b event = ServerCall "'b call" | ConsoleError

text \<open>
  One round of the \<^verbatim>\<open>while (retry)\<close> loop (lines 140-234) either ends the loop, with
  what \<^verbatim>\<open>syncNow\<close> returns or raises, or asks for another round. \<open>uuid\<close> is what
  \<^verbatim>\<open>randomUUID()\<close> returns in this round.
\<close>

datatype ('d, 'b) round =
    Done "error + unit" "('d, 'b) Client" "'b Server" "'b event list"
  | Again "('d, 'b) Client" "'b Server" "'b event list"

definition syncRound ::
  "('d, 'b, 'h) engine \<Rightarrow> string \<Rightarrow> ('d, 'b) Client \<Rightarrow> 'b Server \<Rightarrow> 'b event list \<Rightarrow>
     ('d, 'b) round" where
  "syncRound e uuid c s tr =
     (let (pulled, s1) = fetchSince s (serverVersion c);
          tr1 = tr @ [ServerCall (FetchSince (serverVersion c))]
      in case pull e c pulled of
           (Inl err, c1) \<Rightarrow> Done (Inl err) c1 s1 tr1
         | (Inr u, c1) \<Rightarrow>
             (case A_getChanges e (shadowDoc c1) (localDoc c1) of
                Inl err \<Rightarrow> Done (Inr ()) c1 s1 (tr1 @ [ConsoleError])
              | Inr changes' \<Rightarrow>
                  if length changes' = 0 then Done (Inr ()) c1 s1 tr1
                  else
                    (let req = \<lparr>expectedVersion = serverVersion c1,
                                 Request.opId = uuid,
                                 Request.actorId = Client.actorId c1,
                                 Request.changes = changes',
                                 Request.touchedPaths = Client.touchedPaths c1\<rparr>;
                         (res, s2) = commit s1 req;
                         tr2 = tr1 @ [ServerCall (Commit req)]
                     in case res of
                          Inr ver \<Rightarrow>
                            Done (Inr ())
                              (c1\<lparr>serverVersion := ver, shadowDoc := localDoc c1,
                                  Client.touchedPaths := []\<rparr>) s2 tr2
                        | Inl (STALE_VERSION cur) \<Rightarrow> Again c1 s2 tr2
                        | Inl err \<Rightarrow> Done (Inl err) c1 s2 tr2)))"

text \<open>
  The loop itself. Nothing bounds the number of rounds, so the loop is a partial function:
  \<open>None\<close> is a cycle that never ends. \<open>uuids\<close> is the sequence of results of
  \<^verbatim>\<open>randomUUID()\<close>, \<open>n\<close> the number of those already used. No other task runs between
  the rounds: the cycle is modelled against a server that only this client talks to.
\<close>

partial_function (option) syncLoop ::
  "('d, 'b, 'h) engine \<Rightarrow> (nat \<Rightarrow> string) \<Rightarrow> nat \<Rightarrow> ('d, 'b) Client \<Rightarrow> 'b Server \<Rightarrow>
     'b event list \<Rightarrow> ((error + unit) \<times> ('d, 'b) Client \<times> 'b Server \<times> 'b event list) option"
  where
  "syncLoop e uuids n c s tr =
     (case syncRound e (uuids n) c s tr of
        Done res c' s' tr' \<Rightarrow> Some (res, c', s', tr')
      | Again c' s' tr' \<Rightarrow> syncLoop e uuids (Suc n) c' s' tr')"

text \<open>\<^verbatim>\<open>syncNow\<close> (lines 134-237).\<close>

definition syncNow ::
  "('d, 'b, 'h) engine \<Rightarrow> (nat \<Rightarrow> string) \<Rightarrow> ('d, 'b) Client \<Rightarrow> 'b Server \<Rightarrow>
     ((error + unit) \<times> ('d, 'b) Client \<times> 'b Server \<times> 'b event list) option" where
  "syncNow e uuids c s =
     (if \<not> isOnline c then Some (Inr (), c, s, [])
      else syncLoop e uuids 0 c s [])"

section \<open>Notions used in the statements\<close>

text \<open>
  A key has been assigned a version when it is in the key table and the first log entry
  carrying it has that version: this is what the deduplication branch of \<^verbatim>\<open>commit\<close>
  looks up.
\<close>

definition assigned :: "'b Server \<Rightarrow> string \<Rightarrow> int \<Rightarrow> bool" where
  "assigned s k v \<longleftrightarrow> k \<in> committedOpIds s \<and>
     (case find (\<lambda>x. Op.opId x = k) (ops s) of None \<Rightarrow> False | Some e \<Rightarrow> Op.version e = v)"

section \<open>An engine and states to run the model on\<close>

text \<open>
  A small document engine for the concrete runs below. A document is the list of the
  edits it has seen; an edit carries a number that orders it among the others and
  either puts a value at a path or replaces the whole value. The value of a document is
  the replay of its edits in the order of their numbers. The heads of a document are the
  numbers of its edits.
\<close>

datatype bin = Put nat string jsval | Whole nat jsval | Snap "bin list"

fun edit_id :: "bin \<Rightarrow> nat" where
  "edit_id (Put i p x) = i"
| "edit_id (Whole i x) = i"
| "edit_id (Snap h) = 0"

fun applyEdit :: "jsval \<Rightarrow> bin \<Rightarrow> jsval" where
  "applyEdit v (Put i p x) =
     (case setByPath (\<lambda>val. True) v p x of Inl err \<Rightarrow> v | Inr v' \<Rightarrow> v')"
| "applyEdit v (Whole i x) = x"
| "applyEdit v (Snap h) = v"

definition replay :: "bin list \<Rightarrow> jsval" where
  "replay h = foldl applyEdit (JObject []) (sort_key edit_id h)"

text \<open>
  The patches between two values, as paths. Like Automerge, the engine reports a string
  that was assigned as two patches: a put at the path, and a splice of the characters at
  index 0 below it. A new object is a put at its path, followed by the patches of its
  properties; a property that is gone is a patch at its path.
\<close>

fun field :: "jsval \<Rightarrow> string \<Rightarrow> jsval" where
  "field (JObject kvs) k = (case map_of kvs k of None \<Rightarrow> JUndefined | Some v \<Rightarrow> v)"
| "field v k = JUndefined"

fun fields :: "jsval \<Rightarrow> string list" where
  "fields (JObject kvs) = map fst kvs"
| "fields v = []"

fun patches :: "jsval \<Rightarrow> jsval \<Rightarrow> string list list" where
  "patches old (JObject kvs) =
     concat (map (\<lambda>kv.
        if field old (fst kv) = snd kv then []
        else (case snd kv of
                JObject kvs' \<Rightarrow>
                  (case field old (fst kv) of JObject okvs \<Rightarrow> [] | _ \<Rightarrow> [[fst kv]]) @
                  map ((#) (fst kv)) (patches (field old (fst kv)) (snd kv))
              | JString s \<Rightarrow> [fst kv] # (if s = [] then [] else [[fst kv, ''0'']])
              | _ \<Rightarrow> [[fst kv]])) kvs) @
     map (\<lambda>k. [k]) (filter (\<lambda>k. k \<notin> fst ` set kvs) (fields old))"
| "patches old new = []"

definition logEngine :: "(bin list, bin, nat list) engine" where
  "logEngine =
     \<lparr>A_init = (\<lambda>ident. []),
      A_view = replay,
      A_admits = (\<lambda>val. val \<noteq> JUndefined),
      A_clone = (\<lambda>h. h),
      A_applyChanges = (\<lambda>h cs. Inr (h @ filter (\<lambda>c. c \<notin> set h) cs)),
      A_change = (\<lambda>h message cb.
         case cb (replay h) of
           Inl err \<Rightarrow> Inl err
         | Inr v \<Rightarrow> Inr (if v = replay h then h
                         else h @ [Whole (Suc (foldl max 0 (map edit_id h))) v])),
      A_getChanges = (\<lambda>old new. Inr (filter (\<lambda>c. c \<notin> set old) new)),
      A_getHeads = (\<lambda>h. map edit_id h),
      A_diff = (\<lambda>h before after.
         patches (replay (filter (\<lambda>c. edit_id c \<in> set before) h))
                 (replay (filter (\<lambda>c. edit_id c \<in> set after) h))),
      A_save = Snap,
      A_load = (\<lambda>b. case b of Snap h \<Rightarrow> Inr h | _ \<Rightarrow> Inl EngineError)\<rparr>"

subsection \<open>States for the properties of the sync cycle and of undo\<close>

definition baseDoc :: jsval where
  "baseDoc = JObject [(''nodes'', JObject [(''nodeA'',
      JObject [(''title'', JString ''Base''), (''color'', JString ''blue'')])])]"

definition editA :: bin where
  "editA = Put 1 ''nodes.nodeA.title'' (JString ''First'')"

definition editB :: bin where
  "editB = Put 2 ''nodes.nodeA.title'' (JString ''Second'')"

definition opA :: "bin Op" where
  "opA = \<lparr>Op.version = 2, Op.opId = ''k2'', Op.actorId = ''Alice'', Op.changes = [editA],
          Op.touchedPaths = [''nodes.nodeA.title'']\<rparr>"

definition srv1 :: "bin Server" where
  "srv1 = \<lparr>Server.version = 1,
     ops = [\<lparr>Op.version = 1, Op.opId = ''k1'', Op.actorId = ''Alice'',
             Op.changes = [Whole 0 baseDoc], Op.touchedPaths = [''nodes'']\<rparr>],
     committedOpIds = {''k1''}\<rparr>"

definition srvA :: "bin Server" where
  "srvA = srv1\<lparr>Server.version := 2, ops := ops srv1 @ [opA],
               committedOpIds := {''k1'', ''k2''}\<rparr>"

definition uuids0 :: "nat \<Rightarrow> string" where
  "uuids0 n = ''uuid-'' @ replicate n CHR ''x''"

text \<open>
  Bob at version 1 with a title edit of his own not yet pushed; \<open>bobClean\<close> has nothing
  to push; \<open>bobOffline\<close> is offline.
\<close>

definition bob :: "(bin list, bin) Client" where
  "bob = \<lparr>Client.actorId = ''Bob'', localDoc = [Whole 0 baseDoc, editB],
          shadowDoc = [Whole 0 baseDoc], serverVersion = 1,
          Client.touchedPaths = [''nodes.nodeA.title''], isOnline = True, strictMode = True,
          undoStack = [Snap [Whole 0 baseDoc]]\<rparr>"

definition bobClean :: "(bin list, bin) Client" where
  "bobClean = bob\<lparr>localDoc := [Whole 0 baseDoc], Client.touchedPaths := []\<rparr>"

definition bobOffline :: "(bin list, bin) Client" where
  "bobOffline = bob\<lparr>isOnline := False\<rparr>"

subsection \<open>The second scenario of the demo, run through the model\<close>

text \<open>
  The run of \<^verbatim>\<open>run()\<close> (lines 260-275 and 325-339) with one node and without the
  scenarios in between: Alice creates the document and commits it, Bob pulls it; Alice
  sets the title and commits; Bob, offline, sets the title too, comes back online in
  strict mode and syncs. Every state below is what the operations of the model give from
  the state before; the properties of the run are proved further down.
\<close>

definition uuidsOf :: "string \<Rightarrow> nat \<Rightarrow> string" where
  "uuidsOf name n = ''uuid-'' @ name @ replicate n CHR ''x''"

text \<open>
  The callbacks: \<^verbatim>\<open>d.nodes = {}; d.nodes['nodeA'] = {...}\<close> (lines 266-272) and
  \<^verbatim>\<open>d.nodes['nodeA'].title = ...\<close> (lines 329 and 332).
\<close>

definition cbInit :: "jsval \<Rightarrow> error + jsval" where
  "cbInit d =
     (case setByPath (A_admits logEngine) d ''nodes'' (JObject []) of
        Inl err \<Rightarrow> Inl err
      | Inr d1 \<Rightarrow>
          setByPath (A_admits logEngine) d1 ''nodes.nodeA''
            (JObject [(''title'', JString ''Base''), (''color'', JString ''blue'')]))"

definition cbTitle :: "string \<Rightarrow> jsval \<Rightarrow> error + jsval" where
  "cbTitle t d = setByPath (A_admits logEngine) d ''nodes.nodeA.title'' (JString t)"

definition alice0 :: "(bin list, bin) Client" where
  "alice0 = newClient logEngine ''Alice''"

definition bob0 :: "(bin list, bin) Client" where
  "bob0 = newClient logEngine ''Bob''"

definition alice1 :: "(bin list, bin) Client" where
  "alice1 = snd (change logEngine alice0 ''Init'' cbInit)"

definition reqInit :: "bin Request" where
  "reqInit = \<lparr>expectedVersion = 0, Request.opId = uuidsOf ''a1'' 0,
               Request.actorId = ''Alice'', Request.changes = localDoc alice1,
               Request.touchedPaths = Client.touchedPaths alice1\<rparr>"

definition srvInit :: "bin Server" where
  "srvInit = snd (commit newServer reqInit)"

definition alice2 :: "(bin list, bin) Client" where
  "alice2 = alice1\<lparr>serverVersion := 1, shadowDoc := localDoc alice1,
                   Client.touchedPaths := []\<rparr>"

definition bob1 :: "(bin list, bin) Client" where
  "bob1 = bob0\<lparr>shadowDoc := localDoc alice1, localDoc := localDoc alice1, serverVersion := 1\<rparr>"

definition alice3 :: "(bin list, bin) Client" where
  "alice3 = snd (change logEngine alice2 ''Alice title First'' (cbTitle ''First''))"

definition bob2 :: "(bin list, bin) Client" where
  "bob2 = snd (change logEngine (bob1\<lparr>isOnline := False\<rparr>) ''Bob title Second''
                 (cbTitle ''Second''))"

definition reqFirst :: "bin Request" where
  "reqFirst = \<lparr>expectedVersion = 1, Request.opId = uuidsOf ''a2'' 0,
                Request.actorId = ''Alice'',
                Request.changes = filter (\<lambda>c. c \<notin> set (shadowDoc alice3)) (localDoc alice3),
                Request.touchedPaths = Client.touchedPaths alice3\<rparr>"

definition srvFirst :: "bin Server" where
  "srvFirst = snd (commit srvInit reqFirst)"

definition alice4 :: "(bin list, bin) Client" where
  "alice4 = alice3\<lparr>serverVersion := 2, shadowDoc := localDoc alice3,
                   Client.touchedPaths := []\<rparr>"

definition bob3 :: "(bin list, bin) Client" where
  "bob3 = bob2\<lparr>isOnline := True, strictMode := True\<rparr>"

text \<open>Bob after his sync: the pulled changes applied, one path left in \<^verbatim>\<open>touchedPaths\<close>.\<close>

definition bob4 :: "(bin list, bin) Client" where
  "bob4 = bob3\<lparr>shadowDoc := shadowDoc bob3 @ Op.changes (last (ops srvFirst)),
               localDoc := localDoc bob3 @ Op.changes (last (ops srvFirst)),
               serverVersion := 2,
               Client.touchedPaths := [''nodes.nodeA.title.0'']\<rparr>"

subsection \<open>Requests and a server state for the properties of the server\<close>

definition req0 :: "nat Request" where
  "req0 = \<lparr>expectedVersion = 0, Request.opId = ''k1'', Request.actorId = ''Alice'',
            Request.changes = [7], Request.touchedPaths = [''nodes.nodeA.title'']\<rparr>"

definition server1 :: "nat Server" where
  "server1 = step newServer (Commit req0)"

definition req1 :: "nat Request" where
  "req1 = \<lparr>expectedVersion = 42, Request.opId = ''k1'', Request.actorId = ''Bob'',
            Request.changes = [], Request.touchedPaths = []\<rparr>"

definition req2 :: "nat Request" where
  "req2 = \<lparr>expectedVersion = 1, Request.opId = ''k2'', Request.actorId = ''Bob'',
            Request.changes = [8], Request.touchedPaths = []\<rparr>"

definition req3 :: "nat Request" where
  "req3 = req2\<lparr>expectedVersion := 42\<rparr>"

section \<open>Properties of the server\<close>

lemma fetchSince_state: "snd (fetchSince s v) = s"
  by (simp add: fetchSince_def)

lemma server_inv_new: "server_inv newServer"
  by (simp add: server_inv_def newServer_def)

lemma server_inv_commit:
  assumes "server_inv s"
  shows "server_inv (snd (commit s req))"
proof (cases "appends s req")
  case True
  with assms show ?thesis
    by (auto simp: server_inv_def commit_def appends_def Let_def)
next
  case False
  then have "snd (commit s req) = s"
    by (auto simp: commit_def appends_def split: option.splits)
  with assms show ?thesis by simp
qed

lemma server_inv_step: "server_inv s \<Longrightarrow> server_inv (step s c)"
  by (cases c) (simp_all add: fetchSince_state server_inv_commit)

lemma reachable_inv: "reachable s \<Longrightarrow> server_inv s"
  by (induction rule: reachable.induct) (simp_all add: server_inv_new server_inv_step)

lemma reachable_run: "reachable s \<Longrightarrow> reachable (run s cs)"
  by (induction cs arbitrary: s) (simp_all add: reachable_step)

lemma server1_eq: "server1 = \<lparr>Server.version = 1,
   ops = [\<lparr>Op.version = 1, Op.opId = ''k1'', Op.actorId = ''Alice'', Op.changes = [7], Op.touchedPaths = [''nodes.nodeA.title'']\<rparr>],
   committedOpIds = {''k1''}\<rparr>"
  by (simp add: server1_def commit_def newServer_def req0_def)

lemma reachable_server1: "reachable server1"
  unfolding server1_def by (rule reachable_step [OF reachable_new])

lemma find_append_Some: "find P xs = Some x \<Longrightarrow> find P (xs @ ys) = Some x"
  by (induction xs) (auto split: if_splits)

lemma find_append_None: "find P xs = None \<Longrightarrow> find P (xs @ ys) = find P ys"
  by (induction xs) (auto split: if_splits)

lemma assigned_commit: "assigned s k v \<Longrightarrow> assigned (snd (commit s req)) k v"
  by (auto simp: assigned_def commit_def Let_def find_append_Some split: option.splits)

lemma assigned_step: "assigned s k v \<Longrightarrow> assigned (step s c) k v"
  by (cases c) (simp_all add: fetchSince_state assigned_commit)

lemma assigned_run: "assigned s k v \<Longrightarrow> assigned (run s cs) k v"
  by (induction cs arbitrary: s) (simp_all add: assigned_step)

lemma commit_assigned: "assigned s (Request.opId req) v \<Longrightarrow> commit s req = (Inr v, s)"
  by (auto simp: assigned_def commit_def split: option.splits)

lemma find_opId_None: "k \<notin> Op.opId ` set xs \<Longrightarrow> find (\<lambda>x. Op.opId x = k) xs = None"
  by (induction xs) auto

lemma seen_find:
  assumes "server_inv s" "k \<in> committedOpIds s"
  shows "\<exists>e. find (\<lambda>x. Op.opId x = k) (ops s) = Some e"
proof -
  from assms have "\<exists>x\<in>set (ops s). Op.opId x = k" by (auto simp: server_inv_def)
  then show ?thesis by (cases "find (\<lambda>x. Op.opId x = k) (ops s)") (auto simp: find_None_iff)
qed

lemma commit_returns_assigned:
  assumes "server_inv s" "fst (commit s req) = Inr v"
  shows "assigned (snd (commit s req)) (Request.opId req) v"
proof (cases "Request.opId req \<in> committedOpIds s")
  case True
  with assms show ?thesis
    by (auto simp: assigned_def commit_def split: option.splits)
next
  case False
  with assms(1) have "find (\<lambda>x. Op.opId x = Request.opId req) (ops s) = None"
    by (simp add: server_inv_def find_opId_None)
  with False assms(2) show ?thesis
    by (auto simp: assigned_def commit_def Let_def find_append_None split: if_splits)
qed

lemma commit_twice_length:
  assumes "Request.opId r1 = Request.opId r2"
  shows "length (ops (snd (commit (snd (commit s r1)) r2))) \<le> length (ops s) + 1"
proof (cases "appends s r1")
  case True
  then have "Request.opId r2 \<in> committedOpIds (snd (commit s r1))"
    and "length (ops (snd (commit s r1))) = length (ops s) + 1"
    using assms by (auto simp: commit_def appends_def Let_def)
  then show ?thesis by (auto simp: commit_def [of "snd (commit s r1)"] split: option.splits)
next
  case False
  then have "snd (commit s r1) = s"
    by (auto simp: commit_def appends_def split: option.splits)
  then show ?thesis by (auto simp: commit_def Let_def split: option.splits)
qed

lemma appends_commit:
  "appends s req \<Longrightarrow>
     fst (commit s req) = Inr (Server.version s + 1) \<and>
     Server.version (snd (commit s req)) = Server.version s + 1 \<and>
     length (ops (snd (commit s req))) = length (ops s) + 1 \<and>
     butlast (ops (snd (commit s req))) = ops s"
  by (simp add: appends_def commit_def Let_def)

lemma not_appends_commit: "\<not> appends s req \<Longrightarrow> snd (commit s req) = s"
  by (auto simp: commit_def appends_def split: option.splits)

lemma appendedVersions_from:
  "appendedVersions s cs =
     map (\<lambda>i. Server.version s + int i) [1..<Suc (length (appendedVersions s cs))]"
proof (induction s cs rule: appendedVersions.induct)
  case (1 s)
  show ?case by simp
next
  case (2 s v cs)
  then show ?case by (simp add: fetchSince_state)
next
  case (3 s req cs)
  show ?case
  proof (cases "appends s req")
    case True
    let ?s' = "snd (commit s req)"
    let ?n = "length (appendedVersions ?s' cs)"
    from True have r: "fst (commit s req) = Inr (Server.version s + 1)"
      and v: "Server.version ?s' = Server.version s + 1"
      by (simp_all add: appends_commit)
    have "appendedVersions s (Commit req # cs) = (Server.version s + 1) # appendedVersions ?s' cs"
      using True r by simp
    also have "appendedVersions ?s' cs = map (\<lambda>i. Server.version ?s' + int i) [1..<Suc ?n]"
      using "3.IH" by simp
    also have "\<dots> = map (\<lambda>i. Server.version s + int i) [Suc (Suc 0)..<Suc (Suc ?n)]"
      unfolding v by (rule nth_equalityI) (simp_all del: upt_Suc)
    finally have e: "appendedVersions s (Commit req # cs) =
        map (\<lambda>i. Server.version s + int i) [1..<Suc (Suc ?n)]"
      by (simp add: upt_conv_Cons del: upt_Suc appendedVersions.simps)
    then have "length (appendedVersions s (Commit req # cs)) = Suc ?n"
      by (simp del: appendedVersions.simps upt_Suc)
    with e show ?thesis by (simp del: appendedVersions.simps upt_Suc)
  next
    case False
    then have "appendedVersions s (Commit req # cs) = appendedVersions (snd (commit s req)) cs"
      by (simp split: sum.splits)
    moreover have "snd (commit s req) = s" using False by (rule not_appends_commit)
    ultimately show ?thesis using "3.IH" by (simp del: appendedVersions.simps)
  qed
qed

lemma sorted_wrt_offsets: "sorted_wrt (<) (map (\<lambda>i. a + int i) [m..<n])"
  by (simp add: sorted_wrt_map sorted_wrt_iff_nth_less)

lemma filter_versions_drop:
  "map Op.version xs = map int [Suc m..<Suc m + length xs] \<Longrightarrow>
     filter (\<lambda>x. v < Op.version x) xs = drop (nat (v - int m)) xs"
proof (induction xs arbitrary: m)
  case Nil
  show ?case by simp
next
  case (Cons x xs)
  from Cons.prems have x: "Op.version x = int (Suc m)"
    and m: "map Op.version xs = map int [Suc (Suc m)..<Suc (Suc m) + length xs]"
    by (simp_all add: upt_conv_Cons del: upt_Suc)
  note ih = Cons.IH [OF m]
  show ?case
  proof (cases "v < int (Suc m)")
    case True
    then have "nat (v - int m) = 0" "nat (v - int (Suc m)) = 0" by simp_all
    with ih x True show ?thesis by simp
  next
    case False
    then have "nat (v - int m) = Suc (nat (v - int (Suc m)))" by simp
    with ih x False show ?thesis by simp
  qed
qed

lemma fetchSince_drop:
  assumes "server_inv s"
  shows "fst (fetchSince s v) = drop (nat v) (ops s)"
proof -
  have "map Op.version (ops s) = map int [Suc 0..<Suc 0 + length (ops s)]"
    using assms by (simp add: server_inv_def)
  from filter_versions_drop [OF this, of v]
  show ?thesis by (simp add: fetchSince_def)
qed

lemma sorted_versions:
  assumes "server_inv s"
  shows "sorted_wrt (<) (map Op.version (filter P (ops s)))"
proof -
  have "map Op.version (ops s) = map (\<lambda>i. 0 + int i) [1..<Suc (length (ops s))]"
    using assms by (simp add: server_inv_def)
  then have "sorted_wrt (<) (map Op.version (ops s))"
    by (simp only: sorted_wrt_offsets)
  then have "sorted_wrt (\<lambda>x y. Op.version x < Op.version y) (ops s)"
    by (simp add: sorted_wrt_map)
  then have "sorted_wrt (\<lambda>x y. Op.version x < Op.version y) (filter P (ops s))"
    by (rule sorted_wrt_filter)
  then show ?thesis by (simp add: sorted_wrt_map)
qed

section \<open>The claims about the server\<close>

text \<open>
  Claim C1. A commit whose idempotency key has not been seen and whose expected version
  differs from the server's current version fails with \<^verbatim>\<open>STALE_VERSION\<close> carrying the
  current version, and the server (version, log and key table) is the same afterwards.
\<close>

theorem stale_commit_rejected:
  assumes "Request.opId req \<notin> committedOpIds s"
    and "expectedVersion req \<noteq> Server.version s"
  shows "commit s req = (Inl (STALE_VERSION (Server.version s)), s)"
  using assms by (simp add: commit_def)

theorem stale_commit_rejected_witness:
  "Request.opId (req0\<lparr>Request.opId := ''k2''\<rparr>) \<notin> committedOpIds server1 \<and>
   expectedVersion (req0\<lparr>Request.opId := ''k2''\<rparr>) \<noteq> Server.version server1 \<and>
   commit server1 (req0\<lparr>Request.opId := ''k2''\<rparr>) = (Inl (STALE_VERSION 1), server1)"
  using stale_commit_rejected [of "req0\<lparr>Request.opId := ''k2''\<rparr>" server1]
  by (simp add: server1_eq req0_def)

text \<open>
  Claim C3. In a reachable server state, a commit with a key that was seen before returns
  the version of the log entry carrying that key and leaves the server as it is. When a
  commit has returned version \<open>v\<close>, every later commit with the same key returns \<open>v\<close>
  again and appends nothing, whatever its expected version and whatever calls came in
  between. Two commits in a row with the same key lengthen the log by at most one.
\<close>

theorem idempotent_commit:
  assumes "reachable s"
  shows "(Request.opId req \<in> committedOpIds s \<longrightarrow>
            (\<exists>e. find (\<lambda>x. Op.opId x = Request.opId req) (ops s) = Some e \<and>
                 commit s req = (Inr (Op.version e), s))) \<and>
         (Request.opId r2 = Request.opId r1 \<and> fst (commit s r1) = Inr v \<longrightarrow>
            commit (run (snd (commit s r1)) cs) r2 = (Inr v, run (snd (commit s r1)) cs)) \<and>
         (Request.opId r2 = Request.opId r1 \<longrightarrow>
            length (ops (snd (commit (snd (commit s r1)) r2))) \<le> length (ops s) + 1)"
proof (intro conjI impI)
  have i: "server_inv s" using assms by (rule reachable_inv)
  {
    assume k: "Request.opId req \<in> committedOpIds s"
    then obtain e where e: "find (\<lambda>x. Op.opId x = Request.opId req) (ops s) = Some e"
      using seen_find [OF i] by blast
    with k have "commit s req = (Inr (Op.version e), s)"
      by (simp add: commit_def)
    with e show "\<exists>e. find (\<lambda>x. Op.opId x = Request.opId req) (ops s) = Some e \<and>
                 commit s req = (Inr (Op.version e), s)"
      by blast
  }
  {
    assume a: "Request.opId r2 = Request.opId r1 \<and> fst (commit s r1) = Inr v"
    then have "assigned (snd (commit s r1)) (Request.opId r2) v"
      using commit_returns_assigned [OF i, of r1 v] by simp
    then have "assigned (run (snd (commit s r1)) cs) (Request.opId r2) v"
      by (rule assigned_run)
    then show "commit (run (snd (commit s r1)) cs) r2 = (Inr v, run (snd (commit s r1)) cs)"
      by (rule commit_assigned)
  }
  {
    assume "Request.opId r2 = Request.opId r1"
    then show "length (ops (snd (commit (snd (commit s r1)) r2))) \<le> length (ops s) + 1"
      using commit_twice_length [of r1 r2 s] by simp
  }
qed

theorem idempotent_commit_witness:
  "reachable server1 \<and>
   Request.opId req1 \<in> committedOpIds server1 \<and>
   commit server1 req1 = (Inr 1, server1) \<and>
   Request.opId req3 = Request.opId req2 \<and>
   fst (commit server1 req2) = Inr 2 \<and>
   commit (run (snd (commit server1 req2)) [FetchSince 0]) req3 =
     (Inr 2, run (snd (commit server1 req2)) [FetchSince 0]) \<and>
   length (ops (snd (commit (snd (commit server1 req2)) req3))) \<le> length (ops server1) + 1"
proof -
  have a: "Request.opId req1 \<in> committedOpIds server1"
    by (simp add: server1_eq req1_def)
  have b: "Request.opId req3 = Request.opId req2"
    by (simp add: req3_def)
  have c: "fst (commit server1 req2) = Inr 2"
    by (simp add: commit_def server1_eq req2_def)
  have d: "find (\<lambda>x. Op.opId x = Request.opId req1) (ops server1) = Some e \<Longrightarrow> Op.version e = 1" for e
    by (auto simp: server1_eq req1_def)
  show ?thesis
    using idempotent_commit [OF reachable_server1, of req1 req3 req2 2 "[FetchSince 0]"]
      reachable_server1 a b c d by auto
qed

text \<open>
  Claim C4. In every reachable server state the entry at index \<open>i\<close> of the log has
  version \<open>i + 1\<close> and the current version is the length of the log. A commit that
  appends returns the current version plus one, which is the length of the log after the
  append. The versions returned by the appending commits of any call sequence from the
  initial state are 1, 2, 3, ... in this order.
\<close>

theorem log_versions_monotonic:
  assumes "reachable s"
  shows "(\<forall>i < length (ops s). Op.version (ops s ! i) = int i + 1) \<and>
         Server.version s = int (length (ops s)) \<and>
         (ops (snd (commit s req)) \<noteq> ops s \<longrightarrow>
            fst (commit s req) = Inr (Server.version s + 1) \<and>
            fst (commit s req) = Inr (int (length (ops (snd (commit s req))))) \<and>
            length (ops (snd (commit s req))) = length (ops s) + 1) \<and>
         appendedVersions (newServer :: 'b Server) cs =
            map int [1..<Suc (length (appendedVersions (newServer :: 'b Server) cs))] \<and>
         sorted_wrt (<) (appendedVersions (newServer :: 'b Server) cs)"
proof (intro conjI allI impI)
  have i: "server_inv s" using assms by (rule reachable_inv)
  then show "Server.version s = int (length (ops s))" by (simp add: server_inv_def)
  {
    fix i assume l: "i < length (ops s)"
    have "Op.version (ops s ! i) = map Op.version (ops s) ! i" using l by simp
    also have "\<dots> = map int [1..<Suc (length (ops s))] ! i" using i by (simp add: server_inv_def)
    also have "\<dots> = int i + 1" using l by (simp del: upt_Suc)
    finally show "Op.version (ops s ! i) = int i + 1" .
  }
  {
    assume n: "ops (snd (commit s req)) \<noteq> ops s"
    have a: "appends s req"
    proof (rule ccontr)
      assume "\<not> appends s req"
      then have "snd (commit s req) = s" by (rule not_appends_commit)
      with n show False by simp
    qed
    show "fst (commit s req) = Inr (Server.version s + 1)"
      and "length (ops (snd (commit s req))) = length (ops s) + 1"
      using appends_commit [OF a] by simp_all
    then show "fst (commit s req) = Inr (int (length (ops (snd (commit s req)))))"
      using i by (simp add: server_inv_def)
  }
  have e: "appendedVersions (newServer :: 'b Server) cs =
      map (\<lambda>i. Server.version (newServer :: 'b Server) + int i)
        [1..<Suc (length (appendedVersions (newServer :: 'b Server) cs))]"
    by (rule appendedVersions_from)
  then show "appendedVersions (newServer :: 'b Server) cs =
      map int [1..<Suc (length (appendedVersions (newServer :: 'b Server) cs))]"
    by (simp add: newServer_def del: upt_Suc)
  show "sorted_wrt (<) (appendedVersions (newServer :: 'b Server) cs)"
    by (subst e) (rule sorted_wrt_offsets)
qed

theorem log_versions_monotonic_witness:
  "reachable server1 \<and>
   (0::nat) < length (ops server1) \<and>
   Op.version (ops server1 ! 0) = int 0 + 1 \<and>
   Server.version server1 = int (length (ops server1)) \<and>
   ops (snd (commit server1 req2)) \<noteq> ops server1 \<and>
   fst (commit server1 req2) = Inr (Server.version server1 + 1) \<and>
   Server.version server1 + 1 = 2 \<and>
   appendedVersions (newServer :: nat Server)
     [Commit req0, Commit req1, FetchSince 0, Commit req3, Commit req2, Commit req3] = [1, 2]"
proof -
  let ?cs = "[Commit req0, Commit req1, FetchSince 0, Commit req3, Commit req2, Commit req3]"
  note t = log_versions_monotonic [OF reachable_server1, of req2 ?cs]
  have a: "ops (snd (commit server1 req2)) \<noteq> ops server1"
    by (simp add: commit_def server1_eq req2_def)
  have b: "length (appendedVersions (newServer :: nat Server) ?cs) = 2"
    by (simp add: commit_def appends_def fetchSince_def newServer_def
        req0_def req1_def req2_def req3_def)
  have c: "(0::nat) < length (ops server1)" "Server.version server1 + 1 = 2"
    by (simp_all add: server1_eq)
  have d: "map int [1..<Suc 2] = [1, 2]"
    by (simp add: upt_conv_Cons)
  from t have "appendedVersions (newServer :: nat Server) ?cs =
      map int [1..<Suc (length (appendedVersions (newServer :: nat Server) ?cs))]"
    by blast
  then have e: "appendedVersions (newServer :: nat Server) ?cs = [1, 2]"
    unfolding b d .
  from t reachable_server1 a c e show ?thesis by blast
qed

text \<open>
  Claim C9. \<^verbatim>\<open>fetchSince\<close> leaves the server as it is, gives the same answer when
  repeated, and returns exactly the log entries whose version is greater than its
  argument, in log order; in a reachable state that order is ascending in the version and
  the answer is the log without its first \<open>v\<close> entries.
\<close>

theorem fetchSince_entries:
  "snd (fetchSince s v) = s \<and>
   fetchSince (snd (fetchSince s v)) v = fetchSince s v \<and>
   fst (fetchSince s v) = filter (\<lambda>x. Op.version x > v) (ops s) \<and>
   set (fst (fetchSince s v)) = {x \<in> set (ops s). Op.version x > v} \<and>
   (reachable s \<longrightarrow>
      sorted_wrt (<) (map Op.version (fst (fetchSince s v))) \<and>
      fst (fetchSince s v) = drop (nat v) (ops s))"
proof (intro conjI impI)
  show "snd (fetchSince s v) = s" by (rule fetchSince_state)
  then show "fetchSince (snd (fetchSince s v)) v = fetchSince s v" by simp
  show "fst (fetchSince s v) = filter (\<lambda>x. Op.version x > v) (ops s)"
    by (simp add: fetchSince_def)
  then show "set (fst (fetchSince s v)) = {x \<in> set (ops s). Op.version x > v}" by simp
  {
    assume "reachable s"
    then have i: "server_inv s" by (rule reachable_inv)
    then show "fst (fetchSince s v) = drop (nat v) (ops s)" by (rule fetchSince_drop)
    show "sorted_wrt (<) (map Op.version (fst (fetchSince s v)))"
      using sorted_versions [OF i] by (simp add: fetchSince_def)
  }
qed

theorem fetchSince_entries_witness:
  "reachable (snd (commit server1 req2)) \<and>
   snd (fetchSince (snd (commit server1 req2)) 1) = snd (commit server1 req2) \<and>
   fst (fetchSince (snd (commit server1 req2)) 1) = drop (nat 1) (ops (snd (commit server1 req2))) \<and>
   drop (nat 1) (ops (snd (commit server1 req2))) =
     [\<lparr>Op.version = 2, Op.opId = ''k2'', Op.actorId = ''Bob'', Op.changes = [8],
        Op.touchedPaths = []\<rparr>] \<and>
   sorted_wrt (<) (map Op.version (fst (fetchSince (snd (commit server1 req2)) 1)))"
proof -
  have r: "reachable (snd (commit server1 req2))"
    using reachable_step [OF reachable_server1, of "Commit req2"] by simp
  have e: "drop (nat 1) (ops (snd (commit server1 req2))) =
      [\<lparr>Op.version = 2, Op.opId = ''k2'', Op.actorId = ''Bob'', Op.changes = [8],
        Op.touchedPaths = []\<rparr>]"
    by (simp add: commit_def server1_eq req2_def)
  from fetchSince_entries [of "snd (commit server1 req2)" 1] r e
  show ?thesis by blast
qed

text \<open>
  Claim C10. In every reachable server state the key table is the set of the keys of the
  log entries, so the lookup in the deduplication branch finds an entry, and \<^verbatim>\<open>commit\<close>
  never raises the \<^verbatim>\<open>TypeError\<close> of reading a property of \<^verbatim>\<open>undefined\<close>.
\<close>

theorem seen_keys_are_logged:
  assumes "reachable s"
  shows "committedOpIds s = Op.opId ` set (ops s) \<and>
         (Request.opId req \<in> committedOpIds s \<longrightarrow>
            (\<exists>e. find (\<lambda>x. Op.opId x = Request.opId req) (ops s) = Some e \<and>
                 Op.opId e = Request.opId req)) \<and>
         fst (commit s req) \<noteq> Inl TypeError"
proof -
  have i: "server_inv s" using assms by (rule reachable_inv)
  then have k: "committedOpIds s = Op.opId ` set (ops s)" by (simp add: server_inv_def)
  have f: "\<exists>e. find (\<lambda>x. Op.opId x = Request.opId req) (ops s) = Some e \<and>
                 Op.opId e = Request.opId req"
    if "Request.opId req \<in> committedOpIds s"
  proof -
    from seen_find [OF i that] obtain e
      where e: "find (\<lambda>x. Op.opId x = Request.opId req) (ops s) = Some e" ..
    then have "Op.opId e = Request.opId req" by (auto simp: find_Some_iff)
    with e show ?thesis by blast
  qed
  have "fst (commit s req) \<noteq> Inl TypeError"
  proof (cases "Request.opId req \<in> committedOpIds s")
    case True
    from f [OF this] show ?thesis using True by (auto simp: commit_def)
  next
    case False
    then show ?thesis by (simp add: commit_def Let_def)
  qed
  with k f show ?thesis by blast
qed

theorem seen_keys_are_logged_witness:
  "reachable server1 \<and>
   committedOpIds server1 = Op.opId ` set (ops server1) \<and>
   Request.opId req1 \<in> committedOpIds server1 \<and>
   (\<exists>e. find (\<lambda>x. Op.opId x = Request.opId req1) (ops server1) = Some e \<and>
        Op.opId e = Request.opId req1) \<and>
   fst (commit server1 req1) \<noteq> Inl TypeError"
proof -
  have a: "Request.opId req1 \<in> committedOpIds server1"
    by (simp add: server1_eq req1_def)
  from seen_keys_are_logged [OF reachable_server1, of req1] reachable_server1 a
  show ?thesis by blast
qed

section \<open>Properties of the sync cycle\<close>

lemma pull_nothing: "pull e c [] = (Inr (), c)"
  by (simp add: pull_def)

lemma fetchSince_nothing:
  "\<forall>x \<in> set (ops s). \<not> Op.version x > v \<Longrightarrow> fetchSince s v = ([], s)"
  by (simp add: fetchSince_def filter_empty_conv)

text \<open>
  A local edit through \<^verbatim>\<open>change\<close> adds the paths of its patches to \<^verbatim>\<open>touchedPaths\<close>;
  the reverting mutation calls \<^verbatim>\<open>A.change\<close> itself and adds none.
\<close>

lemma set_add_all: "set (foldl (\<lambda>tp p. set_add tp (f p)) tp ps) = set tp \<union> f ` set ps"
  by (induction ps arbitrary: tp) (auto simp: set_add_def)

lemma change_touchedPaths:
  assumes "change e c message cb = (Inr (), c')"
  shows "set (Client.touchedPaths c') =
           set (Client.touchedPaths c) \<union>
           join_dot ` set (A_diff e (localDoc c') (A_getHeads e (localDoc c))
                             (A_getHeads e (localDoc c')))"
  using assms by (auto simp: change_def Let_def set_add_all split: sum.splits)

text \<open>
  The \<^verbatim>\<open>catch\<close> around \<^verbatim>\<open>A.getChanges\<close> (lines 195-202): when the call raises, the
  round reports on \<^verbatim>\<open>console.error\<close> and leaves the loop, and \<^verbatim>\<open>syncNow\<close> returns
  normally with no commit attempted in that round.
\<close>

lemma getChanges_raises_ends_loop:
  assumes p: "pull e c (fst (fetchSince s (serverVersion c))) = (Inr (), c1)"
    and g: "A_getChanges e (shadowDoc c1) (localDoc c1) = Inl err"
  shows "syncLoop e uuids n c s tr =
           Some (Inr (), c1, s, tr @ [ServerCall (FetchSince (serverVersion c)), ConsoleError])"
proof -
  have "syncRound e (uuids n) c s tr =
      Done (Inr ()) c1 s (tr @ [ServerCall (FetchSince (serverVersion c)), ConsoleError])"
    using p g by (simp add: syncRound_def fetchSince_def)
  then show ?thesis
    by (subst syncLoop.simps) simp
qed

subsection \<open>The concrete runs\<close>

lemma getChanges_same:
  "\<forall>cs. A_getChanges logEngine (shadowDoc bobClean) (shadowDoc bobClean) = Inr cs \<longrightarrow> cs = []"
  by (simp add: logEngine_def)

lemma nothing_new_bobClean:
  "\<forall>x \<in> set (ops srv1). \<not> Op.version x > serverVersion bobClean"
  by (simp add: srv1_def bobClean_def bob_def)

lemma undo_bob:
  "undo logEngine bob = (Inr (), bob\<lparr>undoStack := [], localDoc := [Whole 0 baseDoc]\<rparr>)"
  by (simp add: undo_def bob_def logEngine_def Let_def)

text \<open>The steps of the second scenario, one by one.\<close>

lemma online_scenario: "isOnline alice1" "isOnline bob0" "isOnline alice3" "isOnline bob3"
  by code_simp+

lemma change_alice0: "fst (change logEngine alice0 ''Init'' cbInit) = Inr ()"
  by code_simp

lemma round_alice1:
  "syncRound logEngine (uuidsOf ''a1'' 0) alice1 newServer [] =
     Done (Inr ()) alice2 srvInit [ServerCall (FetchSince 0), ServerCall (Commit reqInit)]"
  by code_simp

lemma round_bob0:
  "syncRound logEngine (uuidsOf ''b1'' 0) bob0 srvInit [] =
     Done (Inr ()) bob1 srvInit [ServerCall (FetchSince 0)]"
  by code_simp

lemma change_alice2: "fst (change logEngine alice2 ''Alice title First'' (cbTitle ''First'')) = Inr ()"
  by code_simp

lemma change_bob1:
  "fst (change logEngine (bob1\<lparr>isOnline := False\<rparr>) ''Bob title Second'' (cbTitle ''Second'')) =
     Inr ()"
  by code_simp

lemma touched_bob2:
  "Client.touchedPaths bob2 = [''nodes.nodeA.title'', ''nodes.nodeA.title.0'']"
  by code_simp

lemma round_alice3:
  "syncRound logEngine (uuidsOf ''a2'' 0) alice3 srvInit [] =
     Done (Inr ()) alice4 srvFirst [ServerCall (FetchSince 1), ServerCall (Commit reqFirst)]"
  by code_simp

lemma op_alice3:
  "Op.touchedPaths (last (ops srvFirst)) = [''nodes.nodeA.title'', ''nodes.nodeA.title.0'']"
  by code_simp

lemma conflicts_bob3:
  "conflicts (Client.touchedPaths bob3) (fst (fetchSince srvFirst (serverVersion bob3))) =
     [''nodes.nodeA.title'', ''nodes.nodeA.title.0'']"
  by code_simp

lemma pull_bob3:
  "pull logEngine bob3 (fst (fetchSince srvFirst (serverVersion bob3))) = (Inl TypeError, bob4)"
  by code_simp

lemma round_bob3:
  "syncRound logEngine (uuidsOf ''b2'' 0) bob3 srvFirst [] =
     Done (Inl TypeError) bob4 srvFirst [ServerCall (FetchSince 1)]"
  by code_simp

lemma shadow_bob4:
  "getByPath (A_view logEngine (shadowDoc bob4)) ''nodes.nodeA.title'' = JString ''First''"
  by code_simp

lemma draft_bob3:
  "setByPath (A_admits logEngine)
     (JObject [(''nodes'', JObject [(''nodeA'',
        JObject [(''title'', JString ''First''), (''color'', JString ''blue'')])])])
     ''nodes.nodeA.title.0'' (JString ''F'') = Inl TypeError"
  by code_simp

section \<open>The claims about the client\<close>

text \<open>
  Claim C8. When the client is offline, \<^verbatim>\<open>syncNow\<close> returns at once: it makes no call
  to the server (the list of events is empty) and the client and the server are as
  before.
\<close>

theorem offline_sync_aborts:
  assumes "\<not> isOnline c"
  shows "syncNow e uuids c s = Some (Inr (), c, s, [])"
  using assms by (simp add: syncNow_def)

theorem offline_sync_aborts_witness:
  "\<not> isOnline bobOffline \<and>
   syncNow logEngine uuids0 bobOffline srvA = Some (Inr (), bobOffline, srvA, [])"
proof -
  have h: "\<not> isOnline bobOffline" by (simp add: bobOffline_def)
  from offline_sync_aborts [OF h, of logEngine uuids0 srvA] h show ?thesis by blast
qed

text \<open>
  Claim C6. When the local document equals the shadow document, the log has no entry
  above the client's version, and the engine reports no changes between a document and
  itself, a sync cycle ends, makes no commit call, and leaves the client and the server
  as they were.
\<close>

theorem empty_sync_is_noop:
  assumes eq: "localDoc c = shadowDoc c"
    and nonew: "\<forall>x \<in> set (ops s). \<not> Op.version x > serverVersion c"
    and eng: "\<forall>cs. A_getChanges e (shadowDoc c) (shadowDoc c) = Inr cs \<longrightarrow> cs = []"
  shows "\<exists>tr. syncNow e uuids c s = Some (Inr (), c, s, tr) \<and>
              (\<forall>req. ServerCall (Commit req) \<notin> set tr)"
proof (cases "isOnline c")
  case False
  then show ?thesis by (simp add: syncNow_def)
next
  case True
  let ?f = "ServerCall (FetchSince (serverVersion c))"
  have f: "fetchSince s (serverVersion c) = ([], s)"
    using nonew by (rule fetchSince_nothing)
  show ?thesis
  proof (cases "A_getChanges e (shadowDoc c) (shadowDoc c)")
    case (Inl err)
    then have "syncRound e (uuids 0) c s [] = Done (Inr ()) c s [?f, ConsoleError]"
      by (simp add: syncRound_def f pull_nothing eq)
    then have "syncNow e uuids c s = Some (Inr (), c, s, [?f, ConsoleError])"
      using True by (simp add: syncNow_def syncLoop.simps)
    then show ?thesis by auto
  next
    case (Inr cs)
    with eng have "cs = []" by simp
    with Inr have "syncRound e (uuids 0) c s [] = Done (Inr ()) c s [?f]"
      by (simp add: syncRound_def f pull_nothing eq)
    then have "syncNow e uuids c s = Some (Inr (), c, s, [?f])"
      using True by (simp add: syncNow_def syncLoop.simps)
    then show ?thesis by auto
  qed
qed

theorem empty_sync_is_noop_witness:
  "localDoc bobClean = shadowDoc bobClean \<and>
   filter (\<lambda>x. Op.version x > serverVersion bobClean) (ops srv1) = [] \<and>
   A_getChanges logEngine (shadowDoc bobClean) (shadowDoc bobClean) = Inr [] \<and>
   (\<exists>tr. syncNow logEngine uuids0 bobClean srv1 = Some (Inr (), bobClean, srv1, tr) \<and>
         (\<forall>req. ServerCall (Commit req) \<notin> set tr))"
proof -
  have h: "localDoc bobClean = shadowDoc bobClean"
    by (simp add: bobClean_def bob_def)
  have n: "filter (\<lambda>x. Op.version x > serverVersion bobClean) (ops srv1) = []"
    by (simp add: srv1_def bobClean_def bob_def)
  have g: "A_getChanges logEngine (shadowDoc bobClean) (shadowDoc bobClean) = Inr []"
    by (simp add: logEngine_def)
  from empty_sync_is_noop [OF h nothing_new_bobClean getChanges_same, of uuids0] h n g
  show ?thesis by blast
qed

text \<open>
  Claim C7, as the code has it. With a snapshot on the stack that the engine loads,
  \<^verbatim>\<open>undo\<close> pops it and makes the loaded document the local document, whatever the local
  document was before; \<^verbatim>\<open>touchedPaths\<close> and everything else stay as they were.
\<close>

theorem undo_restores_snapshot:
  assumes "undoStack c \<noteq> []"
    and "A_load e (last (undoStack c)) = Inr doc"
  shows "undo e c = (Inr (), c\<lparr>undoStack := butlast (undoStack c), localDoc := doc\<rparr>) \<and>
         Client.touchedPaths (snd (undo e c)) = Client.touchedPaths c \<and>
         localDoc (snd (undo e (c\<lparr>localDoc := d\<rparr>))) = doc"
  using assms by (simp add: undo_def Let_def)

theorem undo_restores_snapshot_witness:
  "undoStack bob \<noteq> [] \<and>
   A_load logEngine (last (undoStack bob)) = Inr [Whole 0 baseDoc] \<and>
   undo logEngine bob =
     (Inr (), bob\<lparr>undoStack := butlast (undoStack bob), localDoc := [Whole 0 baseDoc]\<rparr>) \<and>
   Client.touchedPaths (snd (undo logEngine bob)) = Client.touchedPaths bob"
proof -
  have a: "undoStack bob \<noteq> []"
    by (simp add: bob_def)
  have b: "A_load logEngine (last (undoStack bob)) = Inr [Whole 0 baseDoc]"
    by (simp add: bob_def logEngine_def)
  from undo_restores_snapshot [OF a b] a b show ?thesis by blast
qed

text \<open>
  The claim C7 as it was stated fails: after this \<^verbatim>\<open>undo\<close> the set \<^verbatim>\<open>touchedPaths\<close>
  is what it was, it is not empty, and it does not cover the restored document, which
  has a colour at a path that is not in it.
\<close>

theorem undo_keeps_touchedPaths_counterexample:
  "undoStack bob \<noteq> [] \<and>
   fst (undo logEngine bob) = Inr () \<and>
   Client.touchedPaths (snd (undo logEngine bob)) = Client.touchedPaths bob \<and>
   Client.touchedPaths (snd (undo logEngine bob)) = [''nodes.nodeA.title''] \<and>
   getByPath (A_view logEngine (localDoc (snd (undo logEngine bob)))) ''nodes.nodeA.color'' =
     JString ''blue''"
  apply (simp add: undo_bob)
  apply (simp add: bob_def logEngine_def replay_def baseDoc_def getByPath_def)
  done

text \<open>
  Claim C2. The claim is what the demo means to do (line 339: the sync should detect the
  conflict and revert the title), and the code does not do it. In the second scenario of
  the demo, run from the start: Bob's edit of the title leaves two paths in
  \<^verbatim>\<open>touchedPaths\<close>, the title and index 0 below it; so does Alice's, and her commit
  carries them. When Bob syncs in strict mode, both paths are conflicts. The reverting
  callback assigns the title and deletes its path; at the second path \<^verbatim>\<open>setByPath\<close>
  finds as \<^verbatim>\<open>target\<close> the title, a string, and assigning its index 0 raises a
  \<^verbatim>\<open>TypeError\<close>. The exception leaves \<^verbatim>\<open>A.change\<close> and \<^verbatim>\<open>syncNow\<close>: the local document
  is not replaced by a reverted one, the second path stays in \<^verbatim>\<open>touchedPaths\<close>, and
  nothing is committed.
\<close>

theorem strict_revert_raises:
  "fst (change logEngine alice0 ''Init'' cbInit) = Inr () \<and>
   syncNow logEngine (uuidsOf ''a1'') alice1 newServer =
     Some (Inr (), alice2, srvInit, [ServerCall (FetchSince 0), ServerCall (Commit reqInit)]) \<and>
   syncNow logEngine (uuidsOf ''b1'') bob0 srvInit =
     Some (Inr (), bob1, srvInit, [ServerCall (FetchSince 0)]) \<and>
   fst (change logEngine alice2 ''Alice title First'' (cbTitle ''First'')) = Inr () \<and>
   fst (change logEngine (bob1\<lparr>isOnline := False\<rparr>) ''Bob title Second'' (cbTitle ''Second'')) =
     Inr () \<and>
   Client.touchedPaths bob2 = [''nodes.nodeA.title'', ''nodes.nodeA.title.0''] \<and>
   syncNow logEngine (uuidsOf ''a2'') alice3 srvInit =
     Some (Inr (), alice4, srvFirst, [ServerCall (FetchSince 1), ServerCall (Commit reqFirst)]) \<and>
   Op.touchedPaths (last (ops srvFirst)) = [''nodes.nodeA.title'', ''nodes.nodeA.title.0''] \<and>
   strictMode bob3 \<and>
   conflicts (Client.touchedPaths bob3) (fst (fetchSince srvFirst (serverVersion bob3))) =
     [''nodes.nodeA.title'', ''nodes.nodeA.title.0''] \<and>
   setByPath (A_admits logEngine)
     (JObject [(''nodes'', JObject [(''nodeA'',
        JObject [(''title'', JString ''First''), (''color'', JString ''blue'')])])])
     ''nodes.nodeA.title.0'' (JString ''F'') = Inl TypeError \<and>
   pull logEngine bob3 (fst (fetchSince srvFirst (serverVersion bob3))) = (Inl TypeError, bob4) \<and>
   syncNow logEngine (uuidsOf ''b2'') bob3 srvFirst =
     Some (Inl TypeError, bob4, srvFirst, [ServerCall (FetchSince 1)]) \<and>
   localDoc bob4 = localDoc bob3 @ Op.changes (last (ops srvFirst)) \<and>
   Client.touchedPaths bob4 = [''nodes.nodeA.title.0''] \<and>
   getByPath (A_view logEngine (shadowDoc bob4)) ''nodes.nodeA.title'' = JString ''First''"
proof -
  have a1: "syncNow logEngine (uuidsOf ''a1'') alice1 newServer =
      Some (Inr (), alice2, srvInit, [ServerCall (FetchSince 0), ServerCall (Commit reqInit)])"
    by (simp add: syncNow_def online_scenario syncLoop.simps [of _ _ 0] round_alice1)
  have b1: "syncNow logEngine (uuidsOf ''b1'') bob0 srvInit =
      Some (Inr (), bob1, srvInit, [ServerCall (FetchSince 0)])"
    by (simp add: syncNow_def online_scenario syncLoop.simps [of _ _ 0] round_bob0)
  have a2: "syncNow logEngine (uuidsOf ''a2'') alice3 srvInit =
      Some (Inr (), alice4, srvFirst, [ServerCall (FetchSince 1), ServerCall (Commit reqFirst)])"
    by (simp add: syncNow_def online_scenario syncLoop.simps [of _ _ 0] round_alice3)
  have b2: "syncNow logEngine (uuidsOf ''b2'') bob3 srvFirst =
      Some (Inl TypeError, bob4, srvFirst, [ServerCall (FetchSince 1)])"
    by (simp add: syncNow_def online_scenario syncLoop.simps [of _ _ 0] round_bob3)
  have s: "strictMode bob3"
    by (simp add: bob3_def)
  have l: "localDoc bob4 = localDoc bob3 @ Op.changes (last (ops srvFirst))"
    and t: "Client.touchedPaths bob4 = [''nodes.nodeA.title.0'']"
    by (simp_all add: bob4_def)
  from change_alice0 a1 b1 change_alice2 change_bob1 touched_bob2 a2 op_alice3 s conflicts_bob3
    draft_bob3 pull_bob3 b2 l t shadow_bob4
  show ?thesis by (intro conjI)
qed

end
